theory Spec2Isabelle
  imports Complex_Main "HOL-Library.Word" "HOL-Library.Multiset"
begin

section \<open>Strings\<close>

text \<open>
  A JavaScript string is a sequence of UTF-16 code units. The regular expressions of the
  source carry no \<open>u\<close> flag and \<open>split("")\<close> cuts between code units, so every operation
  below works on code units.
\<close>

type_synonym jschar = "16 word"
type_synonym jsstring = "jschar list"

definition is_space :: "jschar \<Rightarrow> bool" where
  \<comment> \<open>the class \<open>\s\<close>, which is also the set of characters \<open>trim()\<close> removes\<close>
  "is_space c \<longleftrightarrow>
     c = 0x0009 \<or> c = 0x000A \<or> c = 0x000B \<or> c = 0x000C \<or> c = 0x000D \<or> c = 0x0020 \<or>
     c = 0x00A0 \<or> c = 0x1680 \<or> (0x2000 \<le> c \<and> c \<le> 0x200A) \<or> c = 0x2028 \<or>
     c = 0x2029 \<or> c = 0x202F \<or> c = 0x205F \<or> c = 0x3000 \<or> c = 0xFEFF"

definition is_digit :: "jschar \<Rightarrow> bool" where
  \<comment> \<open>the class \<open>\d\<close>: the ASCII digits only\<close>
  "is_digit c \<longleftrightarrow> 0x0030 \<le> c \<and> c \<le> 0x0039"

definition trim :: "jsstring \<Rightarrow> jsstring" where
  "trim s = rev (dropWhile is_space (rev (dropWhile is_space s)))"

text \<open>\<open>s.split(/\s+/)\<close>: cut at every maximal run of white space; an empty string gives one
  empty piece, and white space at either end leaves an empty piece there.\<close>

function split_ws :: "jsstring \<Rightarrow> jsstring list" where
  "split_ws s =
     (case dropWhile (\<lambda>c. \<not> is_space c) s of
        [] \<Rightarrow> [takeWhile (\<lambda>c. \<not> is_space c) s]
      | _ # rest \<Rightarrow> takeWhile (\<lambda>c. \<not> is_space c) s # split_ws (dropWhile is_space rest))"
  by pat_completeness auto

termination split_ws
proof (relation "measure length")
  show "wf (measure length)" by simp
next
  fix s :: jsstring and x21 x22
  assume a: "dropWhile (\<lambda>c. \<not> is_space c) s = x21 # x22"
  have "length (dropWhile is_space x22) \<le> length x22"
    by (rule length_dropWhile_le)
  also have "length x22 < length (dropWhile (\<lambda>c. \<not> is_space c) s)"
    by (simp add: a)
  also have "\<dots> \<le> length s"
    by (rule length_dropWhile_le)
  finally show "(dropWhile is_space x22, s) \<in> measure length"
    by simp
qed

declare split_ws.simps [simp del]

section \<open>Normalizer\<close>

text \<open>\<open>.replace(/\s+/g, " ")\<close>: every maximal run of white space becomes one U+0020.\<close>

function collapse_ws :: "jsstring \<Rightarrow> jsstring" where
  "collapse_ws [] = []"
| "collapse_ws (c # cs) =
     (if is_space c then 0x0020 # collapse_ws (dropWhile is_space cs) else c # collapse_ws cs)"
  by pat_completeness auto

termination collapse_ws
proof (relation "measure length")
  show "wf (measure length)" by simp
next
  fix c :: jschar and cs :: jsstring
  have "length (dropWhile is_space cs) \<le> length cs"
    by (rule length_dropWhile_le)
  then show "(dropWhile is_space cs, c # cs) \<in> measure length"
    by simp
next
  fix c :: jschar and cs :: jsstring
  show "(cs, c # cs) \<in> measure length"
    by simp
qed

text \<open>
  \<open>.replace(/$$\s*\d+\s*$$/g, "")\<close>. Without the \<open>m\<close> flag \<open>$\<close> holds only at the end of the
  input. A match therefore starts where the remaining input \<open>r\<close> is empty, reads
  \<open>\s*\d+\s*\<close> (with at least one digit) from there, and ends at the end of the input, so
  a match would take the whole of \<open>r\<close>.
\<close>

definition verse_marker_at :: "jsstring \<Rightarrow> bool" where
  "verse_marker_at r \<longleftrightarrow>
     r = [] \<and>
     (let r1 = dropWhile is_space r; r2 = dropWhile is_digit r1
      in length r2 < length r1 \<and> dropWhile is_space r2 = [])"

text \<open>The replacement tries every start position from left to right; the end of the input
  is the last one, where no digit is left to read.\<close>

fun strip_verse_markers :: "jsstring \<Rightarrow> jsstring" where
  "strip_verse_markers [] = []"
| "strip_verse_markers (c # cs) =
     (if verse_marker_at (c # cs) then [] else c # strip_verse_markers cs)"

definition normalizeArabicText :: "jsstring \<Rightarrow> jsstring" where
  "normalizeArabicText text =
     (if text = [] then []
      else
        (trim \<circ> collapse_ws
         \<circ> filter (\<lambda>c. \<not> is_digit c)
         \<circ> strip_verse_markers
         \<circ> map (\<lambda>c. if c = 0x0629 then 0x0647 else c)
         \<circ> map (\<lambda>c. if c = 0x0649 \<or> c = 0x0626 then 0x064A else c)
         \<circ> map (\<lambda>c. if c = 0x0623 \<or> c = 0x0625 \<or> c = 0x0622 \<or> c = 0x0671 then 0x0627 else c)
         \<circ> filter (\<lambda>c. c \<noteq> 0x0640)
         \<circ> filter (\<lambda>c. \<not> (0x06D6 \<le> c \<and> c \<le> 0x06ED))
         \<circ> filter (\<lambda>c. c \<noteq> 0x0670)
         \<circ> filter (\<lambda>c. \<not> (0x0656 \<le> c \<and> c \<le> 0x065F))
         \<circ> filter (\<lambda>c. \<not> (0x0653 \<le> c \<and> c \<le> 0x0655))
         \<circ> filter (\<lambda>c. \<not> (0x064B \<le> c \<and> c \<le> 0x0652))) text)"

definition tokens :: "jsstring \<Rightarrow> jsstring list" where
  \<comment> \<open>\<open>normalizeArabicText(t).split(/\s+/).filter((w) => w.trim())\<close>\<close>
  "tokens t = filter (\<lambda>w. trim w \<noteq> []) (split_ws (normalizeArabicText t))"


section \<open>Numbers\<close>

text \<open>
  A JavaScript number is a double. A finite number is modelled by the rational it denotes,
  and every division and multiplication of the source returns the double nearest to the
  exact result, ties going to the even significand (\<open>to_double\<close>). The numbers computed
  here are quotients and products of sizes and small constants, far from overflow, which
  \<open>to_double\<close> leaves out. The two values a division by zero yields are kept apart.
\<close>

definition pow2 :: "int \<Rightarrow> rat" where
  "pow2 k = (if 0 \<le> k then 2 ^ nat k else 1 / 2 ^ nat (- k))"

function bit_length :: "int \<Rightarrow> nat" where
  "bit_length n = (if n \<le> 0 then 0 else Suc (bit_length (n div 2)))"
  by pat_completeness auto

termination bit_length
  by (relation "measure nat") auto

declare bit_length.simps [simp del]

definition binary_exponent :: "rat \<Rightarrow> int" where
  \<comment> \<open>for \<open>x > 0\<close>, the \<open>e\<close> with \<open>2 ^ e \<le> x < 2 ^ (e + 1)\<close>: the bit lengths of numerator
     and denominator leave two candidates\<close>
  "binary_exponent x =
     (let (p, q) = quotient_of x;
          e0 = int (bit_length p) - int (bit_length q)
      in if pow2 e0 \<le> x then e0 else e0 - 1)"

definition round_half_even :: "rat \<Rightarrow> int" where
  "round_half_even n =
     (let f = \<lfloor>n\<rfloor>; r = n - of_int f
      in if r < 1 / 2 then f
         else if 1 / 2 < r then f + 1
         else if even f then f else f + 1)"

definition to_double :: "rat \<Rightarrow> rat" where
  \<comment> \<open>53 significant bits; below \<open>2 ^ -1022\<close> the spacing stays \<open>2 ^ -1074\<close>\<close>
  "to_double x =
     (if x = 0 then 0
      else
        let e = max (binary_exponent \<bar>x\<bar>) (- 1022);
            ulp = pow2 (e - 52)
        in sgn x * of_int (round_half_even (\<bar>x\<bar> / ulp)) * ulp)"

definition js_mul :: "rat \<Rightarrow> rat \<Rightarrow> rat" where
  \<comment> \<open>\<open>x * y\<close> on two finite numbers\<close>
  "js_mul x y = to_double (x * y)"

definition js_quot :: "nat \<Rightarrow> nat \<Rightarrow> rat" where
  \<comment> \<open>\<open>a / b\<close> on two sizes, the second not zero\<close>
  "js_quot a b = to_double (of_nat a / of_nat b)"

datatype jsnum = Num rat | PosInfinity | NaN

definition js_div :: "nat \<Rightarrow> nat \<Rightarrow> jsnum" where
  \<comment> \<open>\<open>a / b\<close> on two sizes\<close>
  "js_div a b = (if b = 0 then (if a = 0 then NaN else PosInfinity) else Num (js_quot a b))"

definition js_times :: "jsnum \<Rightarrow> rat \<Rightarrow> jsnum" where
  \<comment> \<open>\<open>x * k\<close> for a positive constant \<open>k\<close>\<close>
  "js_times x k = (case x of Num r \<Rightarrow> Num (js_mul r k) | PosInfinity \<Rightarrow> PosInfinity | NaN \<Rightarrow> NaN)"

definition js_over :: "jsnum \<Rightarrow> rat \<Rightarrow> jsnum" where
  \<comment> \<open>\<open>x / k\<close> for a positive constant \<open>k\<close>\<close>
  "js_over x k =
     (case x of Num r \<Rightarrow> Num (to_double (r / k)) | PosInfinity \<Rightarrow> PosInfinity | NaN \<Rightarrow> NaN)"

definition Math_min :: "jsnum \<Rightarrow> rat \<Rightarrow> jsnum" where
  \<comment> \<open>\<open>Math.min(x, k)\<close> for a finite constant \<open>k\<close>\<close>
  "Math_min x k = (case x of Num r \<Rightarrow> Num (min r k) | PosInfinity \<Rightarrow> Num k | NaN \<Rightarrow> NaN)"

text \<open>\<open>Math.round\<close> on a finite number: the nearest integer, a half going upwards. It is
  exact on the double it is given.\<close>

definition round_half_up :: "rat \<Rightarrow> int" where
  "round_half_up r = \<lfloor>r + 1 / 2\<rfloor>"

definition Math_round :: "jsnum \<Rightarrow> jsnum" where
  "Math_round x =
     (case x of Num r \<Rightarrow> Num (of_int (round_half_up r)) | PosInfinity \<Rightarrow> PosInfinity | NaN \<Rightarrow> NaN)"

section \<open>Word Similarity Scorer\<close>

definition calculateSimilarity :: "jsstring \<Rightarrow> jsstring \<Rightarrow> rat" where
  "calculateSimilarity word1 word2 =
     (let norm1 = normalizeArabicText word1;
          norm2 = normalizeArabicText word2
      in if norm1 = norm2 then 1
         else
           let chars1 = set norm1;
               chars2 = set norm2;
               intersection = Set.filter (\<lambda>x. x \<in> chars2) chars1;
               union = chars1 \<union> chars2
           in if card union > 0 then js_quot (card intersection) (card union) else 0)"

section \<open>Incremental Aligner\<close>

datatype error_type = Incorrect | Extra | Missing

text \<open>\<open>xs[i]\<close> for a number \<open>i\<close>: \<open>undefined\<close> (here \<open>None\<close>) outside the array.\<close>

definition at_index :: "'a list \<Rightarrow> int \<Rightarrow> 'a option" where
  "at_index xs i = (if 0 \<le> i \<and> i < int (length xs) then Some (xs ! nat i) else None)"

definition as_text :: "jsstring option \<Rightarrow> jsstring" where
  \<comment> \<open>an array element handed on as a string; \<open>normalizeArabicText\<close> returns the empty
     string for \<open>undefined\<close> as for the empty string\<close>
  "as_text w = (case w of None \<Rightarrow> [] | Some s \<Rightarrow> s)"

record RealtimeError =
  rt_position :: int
  rt_spoken :: jsstring
  rt_expected :: "jsstring option"
  rt_type :: error_type
  rt_similarity :: int

record check_result =
  errors :: "RealtimeError list"
  newPosition :: int

text \<open>
  The loop of \<open>checkCurrentWords\<close> over \<open>spokenWords\<close>: \<open>i\<close> is the loop index, the list
  argument holds \<open>spokenWords[i..]\<close>, and the pair is \<open>(errors, processedWords)\<close>.
  \<open>position\<close> is an integral number; \<open>allWords[expectedPosition]\<close> is \<open>undefined\<close> at
  a negative index.
\<close>

fun check_loop ::
  "jsstring list \<Rightarrow> int \<Rightarrow> jsstring list \<Rightarrow> nat \<Rightarrow> RealtimeError list \<times> nat
   \<Rightarrow> RealtimeError list \<times> nat" where
  "check_loop allWords position [] i (errs, processedWords) = (errs, processedWords)"
| "check_loop allWords position (w # ws) i (errs, processedWords) =
     (let expectedPosition = position + int i
      in if expectedPosition < int (length allWords) then
           let expectedWord = at_index allWords expectedPosition;
               similarity = calculateSimilarity w (as_text expectedWord)
           in if similarity < to_double (4 / 5) then
                check_loop allWords position ws (i + 1)
                  (errs @ [\<lparr>rt_position = expectedPosition, rt_spoken = w,
                            rt_expected = expectedWord, rt_type = Incorrect,
                            rt_similarity = round_half_up (js_mul similarity 100)\<rparr>],
                   processedWords)
              else check_loop allWords position ws (i + 1) (errs, processedWords + 1)
         else
           check_loop allWords position ws (i + 1)
             (errs @ [\<lparr>rt_position = expectedPosition, rt_spoken = w,
                       rt_expected = Some [], rt_type = Extra, rt_similarity = 0\<rparr>],
              processedWords))"

definition checkCurrentWords :: "jsstring \<Rightarrow> jsstring \<Rightarrow> int \<Rightarrow> check_result" where
  "checkCurrentWords spoken fullText position =
     (if spoken = [] \<or> fullText = [] then \<lparr>errors = [], newPosition = position\<rparr>
      else
        let spokenWords = tokens spoken;
            allWords = tokens fullText
        in if position \<ge> int (length allWords) then \<lparr>errors = [], newPosition = position\<rparr>
           else
             let (errs, processedWords) = check_loop allWords position spokenWords 0 ([], 0)
             in \<lparr>errors = errs, newPosition = position + int processedWords\<rparr>)"

section \<open>Full-Session Comparator\<close>

text \<open>The greedy exact-match count: for each word of \<open>words1\<close> the first index of \<open>words2\<close>
  not yet used that holds the same word is marked used. The pair is \<open>(matches, used)\<close>.\<close>

fun greedy_matches :: "jsstring list \<Rightarrow> jsstring list \<Rightarrow> nat \<times> nat set \<Rightarrow> nat \<times> nat set" where
  "greedy_matches [] words2 (matches, used) = (matches, used)"
| "greedy_matches (word1 # rest) words2 (matches, used) =
     (case find (\<lambda>j. j \<notin> used \<and> word1 = words2 ! j) [0..<length words2] of
        None \<Rightarrow> greedy_matches rest words2 (matches, used)
      | Some j \<Rightarrow> greedy_matches rest words2 (matches + 1, insert j used))"

definition calculateTextSimilarity :: "jsstring \<Rightarrow> jsstring \<Rightarrow> rat" where
  "calculateTextSimilarity text1 text2 =
     (let norm1 = normalizeArabicText text1;
          norm2 = normalizeArabicText text2
      in if norm1 = norm2 then 1
         else
           let words1 = split_ws norm1;
               words2 = split_ws norm2;
               maxLength = max (length words1) (length words2)
           in if maxLength = 0 then 1
              else js_quot (fst (greedy_matches words1 words2 (0, {}))) maxLength)"

record ErrorDetail =
  ed_type :: error_type
  ed_spoken :: "jsstring option"
  ed_correct :: "jsstring option"
  ed_missing :: "jsstring option"
  ed_extra :: "jsstring option"
  ed_similarity :: "int option"

definition truthy :: "jsstring option \<Rightarrow> bool" where
  \<comment> \<open>a word read from an array in a condition: defined and not empty\<close>
  "truthy w = (case w of None \<Rightarrow> False | Some s \<Rightarrow> s \<noteq> [])"

definition compare_at :: "jsstring list \<Rightarrow> jsstring list \<Rightarrow> nat \<Rightarrow> ErrorDetail list" where
  \<comment> \<open>what one round of the loop of \<open>compareTexts\<close> pushes\<close>
  "compare_at spokenWords originalWords i =
     (let spokenWord = at_index spokenWords (int i);
          originalWord = at_index originalWords (int i)
      in if truthy spokenWord \<and> truthy originalWord then
           (if spokenWord \<noteq> originalWord then
              [\<lparr>ed_type = Incorrect, ed_spoken = spokenWord, ed_correct = originalWord,
                ed_missing = None, ed_extra = None,
                ed_similarity =
                  Some (round_half_up
                    (js_mul (calculateTextSimilarity (as_text spokenWord) (as_text originalWord))
                       100))\<rparr>]
            else [])
         else if truthy spokenWord \<and> \<not> truthy originalWord then
           [\<lparr>ed_type = Extra, ed_spoken = None, ed_correct = None, ed_missing = None,
             ed_extra = spokenWord, ed_similarity = None\<rparr>]
         else if \<not> truthy spokenWord \<and> truthy originalWord then
           [\<lparr>ed_type = Missing, ed_spoken = None, ed_correct = None, ed_missing = originalWord,
             ed_extra = None, ed_similarity = None\<rparr>]
         else [])"

record compare_result =
  differences :: "ErrorDetail list"
  similarity :: rat

definition compareTexts :: "jsstring \<Rightarrow> jsstring \<Rightarrow> compare_result" where
  "compareTexts spoken original =
     (let spokenNormalized = normalizeArabicText spoken;
          originalNormalized = normalizeArabicText original;
          sim = calculateTextSimilarity spokenNormalized originalNormalized;
          spokenWords = filter (\<lambda>w. trim w \<noteq> []) (split_ws spokenNormalized);
          originalWords = filter (\<lambda>w. trim w \<noteq> []) (split_ws originalNormalized);
          maxLength = max (length spokenWords) (length originalWords)
      in \<lparr>differences =
            fold (\<lambda>i ds. ds @ compare_at spokenWords originalWords i) [0..<maxLength] [],
          similarity = sim\<rparr>)"

subsection \<open>Report assembly\<close>

record errors_by_type =
  incorrect :: "ErrorDetail list"
  missing :: "ErrorDetail list"
  extra :: "ErrorDetail list"

record error_counts =
  n_incorrect :: nat
  n_missing :: nat
  n_extra :: nat

text \<open>The report without the fields that come from outside the computation (the
  suggestions of the text generator, the timestamp) and without its constant fields.\<close>

record analysis =
  overall_accuracy :: jsnum
  completion_percentage :: jsnum
  total_words :: nat
  spoken_words :: nat
  total_errors :: nat
  by_type :: errors_by_type
  counts :: error_counts

datatype http_error = Status400

text \<open>The handler of the final analysis, on the four fields of the parsed request body.
  \<open>surahData\<close> and \<open>realtimeErrors\<close> are read from the body and not used.\<close>

definition POST ::
  "jsstring \<Rightarrow> jsstring \<Rightarrow> 'a \<Rightarrow> RealtimeError list \<Rightarrow> http_error + analysis" where
  "POST transcript fullText surahData realtimeErrors =
     (if transcript = [] \<or> fullText = [] then Inl Status400
      else
        let r = compareTexts transcript fullText;
            totalWords = length (tokens fullText);
            spokenWords = length (tokens transcript);
            errorsByType =
              \<lparr>incorrect = filter (\<lambda>d. ed_type d = Incorrect) (differences r),
               missing = filter (\<lambda>d. ed_type d = Missing) (differences r),
               extra = filter (\<lambda>d. ed_type d = Extra) (differences r)\<rparr>;
            errorCounts =
              \<lparr>n_incorrect = length (incorrect errorsByType),
               n_missing = length (missing errorsByType),
               n_extra = length (extra errorsByType)\<rparr>;
            accuracyPercentage = js_times (Num (similarity r)) 100;
            completionPercentage = Math_min (js_times (js_div spokenWords totalWords) 100) 100
        in Inr \<lparr>overall_accuracy = js_over (Math_round (js_times accuracyPercentage 10)) 10,
                completion_percentage = js_over (Math_round (js_times completionPercentage 10)) 10,
                total_words = totalWords,
                spoken_words = spokenWords,
                total_errors = length (differences r),
                by_type = errorsByType,
                counts = errorCounts\<rparr>)"

section \<open>Definitions used in the proofs\<close>

text \<open>The steps of \<open>normalizeArabicText\<close> that work character by character: the six
  deletions of marks, the three letter foldings, and the deletion of digits.\<close>

definition is_mark :: "jschar \<Rightarrow> bool" where
  "is_mark c \<longleftrightarrow>
     (0x064B \<le> c \<and> c \<le> 0x0652) \<or> (0x0653 \<le> c \<and> c \<le> 0x0655) \<or>
     (0x0656 \<le> c \<and> c \<le> 0x065F) \<or> c = 0x0670 \<or> (0x06D6 \<le> c \<and> c \<le> 0x06ED) \<or>
     c = 0x0640"

definition fold_letter :: "jschar \<Rightarrow> jschar" where
  "fold_letter c =
     (if c = 0x0623 \<or> c = 0x0625 \<or> c = 0x0622 \<or> c = 0x0671 then 0x0627
      else if c = 0x0649 \<or> c = 0x0626 then 0x064A
      else if c = 0x0629 then 0x0647 else c)"

definition stable :: "jschar \<Rightarrow> bool" where
  "stable c \<longleftrightarrow>
     \<not> is_mark c \<and> c \<noteq> 0x0623 \<and> c \<noteq> 0x0625 \<and> c \<noteq> 0x0622 \<and> c \<noteq> 0x0671 \<and>
     c \<noteq> 0x0649 \<and> c \<noteq> 0x0626 \<and> c \<noteq> 0x0629 \<and> \<not> is_digit c"

definition char_steps :: "jsstring \<Rightarrow> jsstring" where
  "char_steps text =
     (filter (\<lambda>c. \<not> is_digit c)
      \<circ> strip_verse_markers
      \<circ> map (\<lambda>c. if c = 0x0629 then 0x0647 else c)
      \<circ> map (\<lambda>c. if c = 0x0649 \<or> c = 0x0626 then 0x064A else c)
      \<circ> map (\<lambda>c. if c = 0x0623 \<or> c = 0x0625 \<or> c = 0x0622 \<or> c = 0x0671 then 0x0627 else c)
      \<circ> filter (\<lambda>c. c \<noteq> 0x0640)
      \<circ> filter (\<lambda>c. \<not> (0x06D6 \<le> c \<and> c \<le> 0x06ED))
      \<circ> filter (\<lambda>c. c \<noteq> 0x0670)
      \<circ> filter (\<lambda>c. \<not> (0x0656 \<le> c \<and> c \<le> 0x065F))
      \<circ> filter (\<lambda>c. \<not> (0x0653 \<le> c \<and> c \<le> 0x0655))
      \<circ> filter (\<lambda>c. \<not> (0x064B \<le> c \<and> c \<le> 0x0652))) text"

fun collapsed :: "jsstring \<Rightarrow> bool" where
  "collapsed [] = True"
| "collapsed (c # cs) =
     ((is_space c \<longrightarrow> c = 0x0020 \<and> (cs = [] \<or> \<not> is_space (hd cs))) \<and> collapsed cs)"

text \<open>The aligner's test and its event at index \<open>k\<close> of the spoken words, where the
  reference word \<open>allWords[position + k]\<close> exists.\<close>

definition below_threshold :: "jsstring list \<Rightarrow> int \<Rightarrow> jsstring list \<Rightarrow> nat \<Rightarrow> bool" where
  "below_threshold allWords position spokenWords k \<longleftrightarrow>
     calculateSimilarity (spokenWords ! k) (allWords ! (nat position + k)) < to_double (4 / 5)"

definition incorrect_at :: "jsstring list \<Rightarrow> int \<Rightarrow> jsstring list \<Rightarrow> nat \<Rightarrow> RealtimeError" where
  "incorrect_at allWords position spokenWords k =
     \<lparr>rt_position = position + int k, rt_spoken = spokenWords ! k,
      rt_expected = Some (allWords ! (nat position + k)), rt_type = Incorrect,
      rt_similarity = round_half_up
        (js_mul (calculateSimilarity (spokenWords ! k) (allWords ! (nat position + k))) 100)\<rparr>"

section \<open>The normalizer\<close>

lemma normalize_steps:
  "normalizeArabicText text = (if text = [] then [] else trim (collapse_ws (char_steps text)))"
  by (simp add: normalizeArabicText_def char_steps_def)

lemma verse_marker_never: "\<not> verse_marker_at (c # cs)"
  by (simp add: verse_marker_at_def)

lemma strip_verse_markers_id: "strip_verse_markers s = s"
  by (induction s) (simp_all add: verse_marker_never)

lemma stable_space: "stable 0x0020"
  by (simp add: stable_def is_mark_def is_digit_def)

lemma stable_alif: "stable 0x0627"
  by (simp add: stable_def is_mark_def is_digit_def)

lemma stable_ya: "stable 0x064A"
  by (simp add: stable_def is_mark_def is_digit_def)

lemma stable_ha: "stable 0x0647"
  by (simp add: stable_def is_mark_def is_digit_def)

lemma fold_letter_steps:
  "(if (if (if c = 0x0623 \<or> c = 0x0625 \<or> c = 0x0622 \<or> c = 0x0671 then 0x0627 else c) = 0x0649
          \<or> (if c = 0x0623 \<or> c = 0x0625 \<or> c = 0x0622 \<or> c = 0x0671 then 0x0627 else c) = 0x0626
        then 0x064A
        else (if c = 0x0623 \<or> c = 0x0625 \<or> c = 0x0622 \<or> c = 0x0671 then 0x0627 else c)) = 0x0629
    then 0x0647
    else (if (if c = 0x0623 \<or> c = 0x0625 \<or> c = 0x0622 \<or> c = 0x0671 then 0x0627 else c) = 0x0649
          \<or> (if c = 0x0623 \<or> c = 0x0625 \<or> c = 0x0622 \<or> c = 0x0671 then 0x0627 else c) = 0x0626
        then 0x064A
        else (if c = 0x0623 \<or> c = 0x0625 \<or> c = 0x0622 \<or> c = 0x0671 then 0x0627 else c)))
   = fold_letter (c :: jschar)"
  by (simp add: fold_letter_def)

lemma not_mark_steps:
  "(((((\<not> (0x064B \<le> c \<and> c \<le> 0x0652) \<and> \<not> (0x0653 \<le> c \<and> c \<le> 0x0655)) \<and>
       \<not> (0x0656 \<le> c \<and> c \<le> 0x065F)) \<and> c \<noteq> 0x0670) \<and> \<not> (0x06D6 \<le> c \<and> c \<le> 0x06ED)) \<and>
     c \<noteq> 0x0640) = (\<not> is_mark (c :: jschar))"
  unfolding is_mark_def by blast

lemma char_steps_alt:
  "char_steps s = filter (\<lambda>c. \<not> is_digit c) (map fold_letter (filter (\<lambda>c. \<not> is_mark c) s))"
  unfolding char_steps_def comp_apply strip_verse_markers_id filter_filter map_map
    fold_letter_steps not_mark_steps
  by (rule refl)

lemma fold_letter_stable:
  assumes "\<not> is_mark x" and "\<not> is_digit (fold_letter x)"
  shows "stable (fold_letter x)"
proof (cases "x = 0x0623 \<or> x = 0x0625 \<or> x = 0x0622 \<or> x = 0x0671")
  case True
  then have "fold_letter x = 0x0627" by (simp add: fold_letter_def)
  then show ?thesis by (simp add: stable_alif)
next
  case alif: False
  show ?thesis
  proof (cases "x = 0x0649 \<or> x = 0x0626")
    case True
    with alif have "fold_letter x = 0x064A" by (simp add: fold_letter_def)
    then show ?thesis by (simp add: stable_ya)
  next
    case ya: False
    show ?thesis
    proof (cases "x = 0x0629")
      case True
      with alif ya have "fold_letter x = 0x0647" by (simp add: fold_letter_def)
      then show ?thesis by (simp add: stable_ha)
    next
      case False
      with alif ya have "fold_letter x = x" by (simp add: fold_letter_def)
      with assms alif ya False show ?thesis by (simp add: stable_def)
    qed
  qed
qed

lemma char_steps_stable: "c \<in> set (char_steps s) \<Longrightarrow> stable c"
  by (auto simp add: char_steps_alt fold_letter_stable)

lemma stable_fixed: "stable c \<Longrightarrow> \<not> is_mark c \<and> fold_letter c = c \<and> \<not> is_digit c"
  by (simp add: stable_def fold_letter_def)

lemma char_steps_fixed: "(\<And>c. c \<in> set s \<Longrightarrow> stable c) \<Longrightarrow> char_steps s = s"
  by (induction s) (simp_all add: char_steps_alt stable_fixed)

lemma is_space_0020: "is_space 0x0020"
  by (simp add: is_space_def)

lemma dropWhile_hd: "dropWhile P xs = [] \<or> \<not> P (hd (dropWhile P xs))"
  by (induction xs) simp_all

lemma dropWhile_fixed: "xs = [] \<or> \<not> P (hd xs) \<Longrightarrow> dropWhile P xs = xs"
  by (cases xs) auto

lemma collapse_ws_hd: "cs = [] \<or> \<not> is_space (hd cs) \<Longrightarrow>
    collapse_ws cs = [] \<or> \<not> is_space (hd (collapse_ws cs))"
  by (cases cs) auto

lemma collapsed_collapse_ws: "collapsed (collapse_ws s)"
proof (induction s rule: collapse_ws.induct)
  case 1
  show ?case by simp
next
  case (2 c cs)
  show ?case
  proof (cases "is_space c")
    case True
    have "collapse_ws (dropWhile is_space cs) = []
        \<or> \<not> is_space (hd (collapse_ws (dropWhile is_space cs)))"
      by (rule collapse_ws_hd) (rule dropWhile_hd)
    with True 2 show ?thesis by simp
  next
    case False
    with 2 show ?thesis by simp
  qed
qed

lemma collapsed_fixed: "collapsed s \<Longrightarrow> collapse_ws s = s"
proof (induction s)
  case Nil
  show ?case by simp
next
  case (Cons c cs)
  then have cs: "collapse_ws cs = cs" by simp
  show ?case
  proof (cases "is_space c")
    case True
    with Cons.prems have c: "c = 0x0020" and "cs = [] \<or> \<not> is_space (hd cs)" by simp_all
    then have "dropWhile is_space cs = cs" by (simp add: dropWhile_fixed)
    with True c cs show ?thesis by simp
  next
    case False
    with cs show ?thesis by simp
  qed
qed

lemma collapsed_prefix: "collapsed (xs @ ys) \<Longrightarrow> collapsed xs"
proof (induction xs)
  case Nil
  show ?case by simp
next
  case (Cons c cs)
  then show ?case by (cases cs) auto
qed

lemma collapsed_dropWhile: "collapsed xs \<Longrightarrow> collapsed (dropWhile P xs)"
  by (induction xs) simp_all

lemma trim_Nil: "trim [] = []"
  by (simp add: trim_def)

lemma trim_prefix:
  "dropWhile is_space s = trim s @ rev (takeWhile is_space (rev (dropWhile is_space s)))"
proof -
  let ?d = "rev (dropWhile is_space s)"
  have "rev (dropWhile is_space ?d) @ rev (takeWhile is_space ?d)
      = rev (takeWhile is_space ?d @ dropWhile is_space ?d)"
    by (simp only: rev_append)
  also have "\<dots> = rev ?d"
    by (simp only: takeWhile_dropWhile_id)
  finally show ?thesis
    by (simp only: trim_def rev_rev_ident)
qed

lemma collapsed_trim: "collapsed xs \<Longrightarrow> collapsed (trim xs)"
proof -
  assume "collapsed xs"
  then have "collapsed (dropWhile is_space xs)" by (rule collapsed_dropWhile)
  then have "collapsed (trim xs @ rev (takeWhile is_space (rev (dropWhile is_space xs))))"
    using trim_prefix [of xs] by simp
  then show ?thesis by (rule collapsed_prefix)
qed

lemma trim_hd: "trim s = [] \<or> \<not> is_space (hd (trim s))"
proof (cases "trim s = []")
  case True
  then show ?thesis by simp
next
  case False
  have "dropWhile is_space s = [] \<or> \<not> is_space (hd (dropWhile is_space s))"
    by (rule dropWhile_hd)
  moreover have "hd (dropWhile is_space s) = hd (trim s)"
    using False trim_prefix [of s] by (metis hd_append2)
  moreover have "dropWhile is_space s \<noteq> []"
    using False trim_prefix [of s] by (metis append_is_Nil_conv)
  ultimately show ?thesis by metis
qed

lemma trim_last: "dropWhile is_space (rev (trim s)) = rev (trim s)"
proof -
  have "rev (trim s) = dropWhile is_space (rev (dropWhile is_space s))"
    by (simp add: trim_def)
  then show ?thesis by (simp add: dropWhile_idem)
qed

lemma trim_trim: "trim (trim s) = trim s"
proof -
  have "dropWhile is_space (trim s) = trim s"
    by (rule dropWhile_fixed) (rule trim_hd)
  then have "trim (trim s) = rev (dropWhile is_space (rev (trim s)))"
    by (simp add: trim_def)
  then show ?thesis by (simp add: trim_last)
qed

lemma set_collapse_ws: "set (collapse_ws s) \<subseteq> insert 0x0020 (set s)"
proof (induction s rule: collapse_ws.induct)
  case 1
  show ?case by simp
next
  case (2 c cs)
  have "set (dropWhile is_space cs) \<subseteq> set cs"
    by (auto dest: set_dropWhileD)
  with 2 show ?case by (cases "is_space c") auto
qed

lemma set_trim: "set (trim s) \<subseteq> set s"
  by (auto simp add: trim_def dest!: set_dropWhileD)

lemma normalize_stable: "c \<in> set (normalizeArabicText s) \<Longrightarrow> stable c"
proof -
  assume c: "c \<in> set (normalizeArabicText s)"
  then have "s \<noteq> []" by (auto simp add: normalize_steps)
  with c have "c \<in> set (trim (collapse_ws (char_steps s)))" by (simp add: normalize_steps)
  then have "c \<in> set (collapse_ws (char_steps s))" using set_trim by blast
  then have "c = 0x0020 \<or> c \<in> set (char_steps s)" using set_collapse_ws by blast
  then show "stable c" using stable_space char_steps_stable by blast
qed

lemma normalize_collapsed: "collapsed (normalizeArabicText s)"
  by (simp add: normalize_steps collapsed_trim collapsed_collapse_ws)

lemma normalize_trimmed: "trim (normalizeArabicText s) = normalizeArabicText s"
  by (simp add: normalize_steps trim_trim trim_Nil)

text \<open>The opening words of the basmala with their vowel marks and with Alif Wasla
  normalize to the bare letters with the plain Alif.\<close>

lemma normalize_basmala:
  "normalizeArabicText
     [0x0628, 0x0650, 0x0633, 0x0652, 0x0645, 0x0650, 0x0020,
      0x0671, 0x0644, 0x0644, 0x0651, 0x064E, 0x0647, 0x0650]
   = [0x0628, 0x0633, 0x0645, 0x0020, 0x0627, 0x0644, 0x0644, 0x0647]"
  by code_simp

text \<open>
  Claim C7. \<open>normalizeArabicText\<close> is idempotent: normalizing a normalized string changes
  nothing, for every string.
\<close>

theorem normalize_idempotent:
  "normalizeArabicText (normalizeArabicText s) = normalizeArabicText s"
proof -
  have "char_steps (normalizeArabicText s) = normalizeArabicText s"
    by (rule char_steps_fixed) (rule normalize_stable)
  moreover have "collapse_ws (normalizeArabicText s) = normalizeArabicText s"
    by (rule collapsed_fixed) (rule normalize_collapsed)
  ultimately have "normalizeArabicText (normalizeArabicText s)
      = (if normalizeArabicText s = [] then [] else trim (normalizeArabicText s))"
    by (simp add: normalize_steps [of "normalizeArabicText s"])
  then show ?thesis by (simp add: normalize_trimmed)
qed

text \<open>
  Claim C6. The step meant to delete parenthesized verse numbers never matches, so the
  parentheses of a marker stay: the input \<open>" (1) "\<close> is normalized to \<open>"()"\<close>. Only the
  digit is deleted.
\<close>

theorem normalize_keeps_parentheses:
  "normalizeArabicText [0x0020, 0x0028, 0x0031, 0x0029, 0x0020] = [0x0028, 0x0029]"
  by code_simp

section \<open>Doubles\<close>

text \<open>The literal \<open>0.8\<close>, and a product that falls below the half its exact value sits
  on: the quotient of 23 and 40 times 100 is rounded to 57.\<close>

lemma double_of_threshold: "to_double (4 / 5) = 3602879701896397 / 4503599627370496"
  by code_simp

lemma double_product_below_half:
  "js_mul (js_quot 23 40) 100 = 8092405580431359 / 140737488355328
   \<and> round_half_up (js_mul (js_quot 23 40) 100) = 57"
  by code_simp

lemma to_double_one: "to_double 1 = 1"
  by code_simp

lemma threshold_below_one: "\<not> 1 < to_double (4 / 5)"
  by code_simp

section \<open>The word similarity scorer\<close>

lemma same_letters_similarity:
  assumes "set (normalizeArabicText word1) = set (normalizeArabicText word2)"
  shows "calculateSimilarity word1 word2 = 1"
proof (cases "normalizeArabicText word1 = normalizeArabicText word2")
  case True
  then show ?thesis by (simp add: calculateSimilarity_def)
next
  case False
  have ne: "normalizeArabicText word1 \<noteq> []"
  proof
    assume n: "normalizeArabicText word1 = []"
    with assms have "normalizeArabicText word2 = []" by simp
    with n False show False by simp
  qed
  then have c: "card (set (normalizeArabicText word1)) > 0"
    by (simp add: card_gt_0_iff)
  have f: "Set.filter (\<lambda>x. x \<in> set (normalizeArabicText word2)) (set (normalizeArabicText word1))
      = set (normalizeArabicText word1)"
    using assms by auto
  have u: "set (normalizeArabicText word1) \<union> set (normalizeArabicText word2)
      = set (normalizeArabicText word1)"
    using assms by simp
  show ?thesis
    unfolding calculateSimilarity_def Let_def f u using False c ne
    by (simp add: js_quot_def to_double_one)
qed

section \<open>The incremental aligner\<close>

lemma tokens_Nil: "tokens [] = []"
  by code_simp

lemma check_loop_types:
  "e \<in> set (fst (check_loop allWords position ws i (errs, p))) \<Longrightarrow>
   e \<in> set errs \<or> rt_type e = Incorrect \<or> rt_type e = Extra"
proof (induction ws arbitrary: i errs p)
  case Nil
  then show ?case by simp
next
  case (Cons w ws)
  show ?case
  proof (cases "position + int i < int (length allWords)")
    case inb: True
    show ?thesis
    proof (cases "calculateSimilarity w (as_text (at_index allWords (position + int i))) < to_double (4 / 5)")
      case True
      with inb Cons.prems have
        "e \<in> set (fst (check_loop allWords position ws (i + 1)
           (errs @ [\<lparr>rt_position = position + int i, rt_spoken = w,
                     rt_expected = at_index allWords (position + int i), rt_type = Incorrect,
                     rt_similarity = round_half_up
                       (js_mul (calculateSimilarity w (as_text (at_index allWords (position + int i)))) 100)\<rparr>],
            p)))"
        by (simp add: Let_def)
      from Cons.IH [OF this] show ?thesis by auto
    next
      case False
      with inb Cons.prems have
        "e \<in> set (fst (check_loop allWords position ws (i + 1) (errs, p + 1)))"
        by (simp add: Let_def)
      from Cons.IH [OF this] show ?thesis .
    qed
  next
    case False
    with Cons.prems have
      "e \<in> set (fst (check_loop allWords position ws (i + 1)
         (errs @ [\<lparr>rt_position = position + int i, rt_spoken = w,
                   rt_expected = Some [], rt_type = Extra, rt_similarity = 0\<rparr>], p)))"
      by (simp add: Let_def)
    from Cons.IH [OF this] show ?thesis by auto
  qed
qed

lemma check_loop_step:
  "\<exists>errs' d. d \<le> 1 \<and> (position + int i < int (length allWords) \<or> d = 0) \<and>
     check_loop allWords position (w # ws) i (errs, p)
       = check_loop allWords position ws (i + 1) (errs', p + d)"
proof (cases "position + int i < int (length allWords)")
  case inb: True
  show ?thesis
  proof (cases "calculateSimilarity w (as_text (at_index allWords (position + int i))) < to_double (4 / 5)")
    case True
    with inb have "check_loop allWords position (w # ws) i (errs, p)
        = check_loop allWords position ws (i + 1)
           (errs @ [\<lparr>rt_position = position + int i, rt_spoken = w,
                     rt_expected = at_index allWords (position + int i), rt_type = Incorrect,
                     rt_similarity = round_half_up
                       (js_mul (calculateSimilarity w (as_text (at_index allWords (position + int i)))) 100)\<rparr>],
            p + 0)"
      by (simp add: Let_def)
    with inb show ?thesis by blast
  next
    case False
    with inb have "check_loop allWords position (w # ws) i (errs, p)
        = check_loop allWords position ws (i + 1) (errs, p + 1)"
      by (simp add: Let_def)
    with inb show ?thesis by blast
  qed
next
  case False
  then have "check_loop allWords position (w # ws) i (errs, p)
      = check_loop allWords position ws (i + 1)
         (errs @ [\<lparr>rt_position = position + int i, rt_spoken = w,
                   rt_expected = Some [], rt_type = Extra, rt_similarity = 0\<rparr>], p + 0)"
    by (simp add: Let_def)
  then show ?thesis by blast
qed

lemma check_loop_bounds:
  "p \<le> snd (check_loop allWords position ws i (errs, p)) \<and>
   position + int i + (int (snd (check_loop allWords position ws i (errs, p))) - int p)
     \<le> max (position + int i) (int (length allWords))"
proof (induction ws arbitrary: i errs p)
  case Nil
  show ?case by simp
next
  case (Cons w ws)
  obtain errs' d where d: "d \<le> 1" "position + int i < int (length allWords) \<or> d = 0"
    and step: "check_loop allWords position (w # ws) i (errs, p)
       = check_loop allWords position ws (i + 1) (errs', p + d)"
    using check_loop_step by blast
  let ?r = "snd (check_loop allWords position ws (i + 1) (errs', p + d))"
  have "p + d \<le> ?r"
    and "position + int (i + 1) + (int ?r - int (p + d))
      \<le> max (position + int (i + 1)) (int (length allWords))"
    using Cons.IH [where i = "i + 1" and p = "p + d" and errs = errs'] by simp_all
  with d show ?case unfolding step by auto
qed

lemma check_loop_in_bounds:
  assumes "0 \<le> position" and "position + int (length sw) \<le> int (length aw)"
  shows "ws = drop i sw \<Longrightarrow>
    check_loop aw position ws i (errs, p)
      = (errs @ map (incorrect_at aw position sw) (filter (below_threshold aw position sw) [i..<length sw]),
         p + length (filter (\<lambda>k. \<not> below_threshold aw position sw k) [i..<length sw]))"
proof (induction ws arbitrary: i errs p)
  case Nil
  then have "length sw \<le> i" by simp
  then show ?case by simp
next
  case (Cons w ws)
  from Cons.prems have i: "i < length sw"
    by (metis drop_eq_Nil list.distinct(1) not_le)
  with Cons.prems have w: "w = sw ! i" and ws: "ws = drop (i + 1) sw"
    by (simp_all add: Cons_nth_drop_Suc [symmetric])
  from i assms have inb: "position + int i < int (length aw)" by simp
  from assms have n: "nat (position + int i) = nat position + i" by simp
  from inb assms n have at: "at_index aw (position + int i) = Some (aw ! (nat position + i))"
    by (simp add: at_index_def)
  from i have upt: "[i..<length sw] = i # [i + 1..<length sw]"
    by (simp add: upt_conv_Cons)
  show ?case
  proof (cases "below_threshold aw position sw i")
    case True
    then have "check_loop aw position (w # ws) i (errs, p)
        = check_loop aw position ws (i + 1) (errs @ [incorrect_at aw position sw i], p)"
      using inb at w by (simp add: Let_def below_threshold_def incorrect_at_def as_text_def)
    also have "\<dots> = ((errs @ [incorrect_at aw position sw i])
          @ map (incorrect_at aw position sw) (filter (below_threshold aw position sw) [i + 1..<length sw]),
         p + length (filter (\<lambda>k. \<not> below_threshold aw position sw k) [i + 1..<length sw]))"
      by (rule Cons.IH [OF ws])
    finally show ?thesis using True by (simp add: upt)
  next
    case False
    then have "check_loop aw position (w # ws) i (errs, p)
        = check_loop aw position ws (i + 1) (errs, p + 1)"
      using inb at w by (simp add: Let_def below_threshold_def as_text_def)
    also have "\<dots> = (errs
          @ map (incorrect_at aw position sw) (filter (below_threshold aw position sw) [i + 1..<length sw]),
         p + 1 + length (filter (\<lambda>k. \<not> below_threshold aw position sw k) [i + 1..<length sw]))"
      by (rule Cons.IH [OF ws])
    finally show ?thesis using False by (simp add: upt)
  qed
qed

lemma checkCurrentWords_in_bounds:
  assumes "0 \<le> position"
    and "position + int (length (tokens spoken)) \<le> int (length (tokens fullText))"
  shows "checkCurrentWords spoken fullText position =
    \<lparr>errors = map (incorrect_at (tokens fullText) position (tokens spoken))
        (filter (below_threshold (tokens fullText) position (tokens spoken))
           [0..<length (tokens spoken)]),
     newPosition = position + int (length
        (filter (\<lambda>k. \<not> below_threshold (tokens fullText) position (tokens spoken) k)
           [0..<length (tokens spoken)]))\<rparr>"
proof (cases "tokens spoken = []")
  case True
  then show ?thesis by (simp add: checkCurrentWords_def Let_def)
next
  case False
  then have s: "spoken \<noteq> []" using tokens_Nil by auto
  from False assms have lt: "position < int (length (tokens fullText))" by (cases "tokens spoken") auto
  then have f: "fullText \<noteq> []" using assms tokens_Nil by auto
  have "check_loop (tokens fullText) position (tokens spoken) 0 ([], 0)
      = ([] @ map (incorrect_at (tokens fullText) position (tokens spoken))
        (filter (below_threshold (tokens fullText) position (tokens spoken))
           [0..<length (tokens spoken)]),
         0 + length (filter (\<lambda>k. \<not> below_threshold (tokens fullText) position (tokens spoken) k)
           [0..<length (tokens spoken)]))"
    by (rule check_loop_in_bounds [OF assms]) simp
  with s f lt show ?thesis by (simp add: checkCurrentWords_def Let_def)
qed

lemma single_token_match:
  assumes sim: "calculateSimilarity w e = 1"
    and sp: "tokens spoken = [w]"
    and at: "at_index (tokens fullText) position = Some e"
  shows "checkCurrentWords spoken fullText position = \<lparr>errors = [], newPosition = position + 1\<rparr>"
proof -
  from at have pos: "0 \<le> position" "position < int (length (tokens fullText))"
    and e: "e = tokens fullText ! nat position"
    by (auto simp add: at_index_def split: if_splits)
  from pos sp have inb: "position + int (length (tokens spoken)) \<le> int (length (tokens fullText))"
    by simp
  from sim e sp have "\<not> below_threshold (tokens fullText) position (tokens spoken) 0"
    by (simp add: below_threshold_def threshold_below_one)
  with sp show ?thesis
    by (simp add: checkCurrentWords_in_bounds [OF pos(1) inb])
qed

lemma comparator_reports_missing:
  "map ed_type (differences (compareTexts [0x0061] [0x0061, 0x0020, 0x0062])) = [Missing]"
  by code_simp

text \<open>
  Claim C10. Every event that \<open>checkCurrentWords\<close> returns has type \<open>incorrect\<close> or
  \<open>extra\<close>, whatever the chunk, the reference text and the position; a \<open>missing\<close> event
  comes from \<open>compareTexts\<close> only, which reports one for the reference \<open>"a b"\<close> against
  the transcript \<open>"a"\<close>.
\<close>

theorem aligner_never_missing:
  "(\<forall>e \<in> set (errors (checkCurrentWords spoken fullText position)).
      rt_type e = Incorrect \<or> rt_type e = Extra)
   \<and> map ed_type (differences (compareTexts [0x0061] [0x0061, 0x0020, 0x0062])) = [Missing]"
proof
  show "\<forall>e \<in> set (errors (checkCurrentWords spoken fullText position)).
      rt_type e = Incorrect \<or> rt_type e = Extra"
  proof
    fix e
    assume e: "e \<in> set (errors (checkCurrentWords spoken fullText position))"
    then have "e \<in> set (fst (check_loop (tokens fullText) position (tokens spoken) 0 ([], 0)))"
      by (simp add: checkCurrentWords_def Let_def split_beta split: if_splits)
    from check_loop_types [OF this] show "rt_type e = Incorrect \<or> rt_type e = Extra" by simp
  qed
next
  show "map ed_type (differences (compareTexts [0x0061] [0x0061, 0x0020, 0x0062])) = [Missing]"
    by (rule comparator_reports_missing)
qed

text \<open>The chunk \<open>"a xy z"\<close> against the reference \<open>"a b"\<close> from position 0: one
  \<open>incorrect\<close> and one \<open>extra\<close> event.\<close>

theorem aligner_never_missing_witness:
  "map rt_type (errors (checkCurrentWords [0x0061, 0x0020, 0x0078, 0x0079, 0x0020, 0x007A]
        [0x0061, 0x0020, 0x0062] 0)) = [Incorrect, Extra]
   \<and> list_all (\<lambda>e. rt_type e = Incorrect \<or> rt_type e = Extra)
        (errors (checkCurrentWords [0x0061, 0x0020, 0x0078, 0x0079, 0x0020, 0x007A]
          [0x0061, 0x0020, 0x0062] 0))"
proof -
  have "map rt_type (errors (checkCurrentWords [0x0061, 0x0020, 0x0078, 0x0079, 0x0020, 0x007A]
        [0x0061, 0x0020, 0x0062] 0)) = [Incorrect, Extra]"
    by code_simp
  then show ?thesis
    using aligner_never_missing
      [of "[0x0061, 0x0020, 0x0078, 0x0079, 0x0020, 0x007A]" "[0x0061, 0x0020, 0x0062]" 0]
    by (simp add: list_all_iff)
qed

text \<open>
  Claim C8. From a position within the bounds, \<open>0 \<le> position \<le>\<close> the number of reference
  words, \<open>checkCurrentWords\<close> returns a new position that is not smaller and is again at
  most the number of reference words.
\<close>

theorem advance_cursor_bounds:
  assumes "0 \<le> position" and "position \<le> int (length (tokens fullText))"
  shows "position \<le> newPosition (checkCurrentWords spoken fullText position) \<and>
         newPosition (checkCurrentWords spoken fullText position) \<le> int (length (tokens fullText))"
proof -
  let ?r = "check_loop (tokens fullText) position (tokens spoken) 0 ([], 0)"
  have "position + int 0 + (int (snd ?r) - int 0) \<le> max (position + int 0) (int (length (tokens fullText)))"
    using check_loop_bounds by blast
  with assms have "position + int (snd ?r) \<le> int (length (tokens fullText))" by simp
  with assms show ?thesis
    by (simp add: checkCurrentWords_def Let_def split_beta)
qed

text \<open>The chunk \<open>"b xy"\<close> against the reference \<open>"a b c"\<close> from position 1.\<close>

theorem advance_cursor_bounds_witness:
  "(0::int) \<le> 1 \<and> 1 \<le> int (length (tokens [0x0061, 0x0020, 0x0062, 0x0020, 0x0063]))
   \<and> 1 \<le> newPosition (checkCurrentWords [0x0062, 0x0020, 0x0078, 0x0079]
            [0x0061, 0x0020, 0x0062, 0x0020, 0x0063] 1)
   \<and> newPosition (checkCurrentWords [0x0062, 0x0020, 0x0078, 0x0079]
            [0x0061, 0x0020, 0x0062, 0x0020, 0x0063] 1)
        \<le> int (length (tokens [0x0061, 0x0020, 0x0062, 0x0020, 0x0063]))"
proof -
  have h1: "(0::int) \<le> 1" by simp
  have h2: "1 \<le> int (length (tokens [0x0061, 0x0020, 0x0062, 0x0020, 0x0063]))" by code_simp
  from advance_cursor_bounds [OF h1 h2, of "[0x0062, 0x0020, 0x0078, 0x0079]"] h1 h2
  show ?thesis by blast
qed




text \<open>
  Claim C1. The chunk \<open>"a xy c"\<close> against the reference \<open>"a b c d"\<close> from position 0: the
  three spoken words land within the reference and are compared with the reference words
  0, 1 and 2; the second scores below 0.8 and is flagged \<open>incorrect\<close> at position 1. The
  new position is 2, the number of matched words, and not 3, the number of reference
  positions the chunk was compared with: the flagged word is not counted. The next chunk
  \<open>"d"\<close>, taken from position 2, is then compared with the reference word \<open>"c"\<close>, which the
  first chunk had matched already, and is flagged \<open>incorrect\<close>.
\<close>

theorem advance_skips_incorrect_positions:
  "(0::int) + int (length (tokens [0x0061, 0x0020, 0x0078, 0x0079, 0x0020, 0x0063]))
        \<le> int (length (tokens [0x0061, 0x0020, 0x0062, 0x0020, 0x0063, 0x0020, 0x0064]))
   \<and> map rt_type (errors (checkCurrentWords [0x0061, 0x0020, 0x0078, 0x0079, 0x0020, 0x0063]
        [0x0061, 0x0020, 0x0062, 0x0020, 0x0063, 0x0020, 0x0064] 0)) = [Incorrect]
   \<and> map rt_position (errors (checkCurrentWords [0x0061, 0x0020, 0x0078, 0x0079, 0x0020, 0x0063]
        [0x0061, 0x0020, 0x0062, 0x0020, 0x0063, 0x0020, 0x0064] 0)) = [1]
   \<and> newPosition (checkCurrentWords [0x0061, 0x0020, 0x0078, 0x0079, 0x0020, 0x0063]
        [0x0061, 0x0020, 0x0062, 0x0020, 0x0063, 0x0020, 0x0064] 0) = 2
   \<and> errors (checkCurrentWords [0x0064]
        [0x0061, 0x0020, 0x0062, 0x0020, 0x0063, 0x0020, 0x0064] 2)
       = [\<lparr>rt_position = 2, rt_spoken = [0x0064], rt_expected = Some [0x0063],
            rt_type = Incorrect, rt_similarity = 0\<rparr>]"
  by code_simp

text \<open>
  Claim C9. Two words whose normalized forms differ but are built from the same set of
  code units have similarity exactly 1, and such a spoken word passes the aligner's
  threshold: against that reference word it yields no event and moves the position on.
\<close>

theorem same_letters_pass_threshold:
  assumes "set (normalizeArabicText w) = set (normalizeArabicText e)"
    and "normalizeArabicText w \<noteq> normalizeArabicText e"
    and "tokens spoken = [w]"
    and "at_index (tokens fullText) position = Some e"
  shows "calculateSimilarity w e = 1
    \<and> checkCurrentWords spoken fullText position = \<lparr>errors = [], newPosition = position + 1\<rparr>"
proof -
  have "calculateSimilarity w e = 1"
    using assms(1) by (rule same_letters_similarity)
  then show ?thesis
    using single_token_match [OF _ assms(3) assms(4)] by simp
qed

text \<open>The spoken word Ra-Ba (U+0631 U+0628) against the reference word Ba-Ra.\<close>

theorem same_letters_pass_threshold_witness:
  "set (normalizeArabicText [0x0631, 0x0628]) = set (normalizeArabicText [0x0628, 0x0631])
   \<and> normalizeArabicText [0x0631, 0x0628] \<noteq> normalizeArabicText [0x0628, 0x0631]
   \<and> tokens [0x0631, 0x0628] = [[0x0631, 0x0628]]
   \<and> at_index (tokens [0x0628, 0x0631]) 0 = Some [0x0628, 0x0631]
   \<and> calculateSimilarity [0x0631, 0x0628] [0x0628, 0x0631] = 1
   \<and> checkCurrentWords [0x0631, 0x0628] [0x0628, 0x0631] 0 = \<lparr>errors = [], newPosition = 0 + 1\<rparr>"
proof -
  have h1: "set (normalizeArabicText [0x0631, 0x0628]) = set (normalizeArabicText [0x0628, 0x0631])"
    by code_simp
  have h2: "normalizeArabicText [0x0631, 0x0628] \<noteq> normalizeArabicText [0x0628, 0x0631]"
    by code_simp
  have h3: "tokens [0x0631, 0x0628] = [[0x0631, 0x0628]]"
    by code_simp
  have h4: "at_index (tokens [0x0628, 0x0631]) 0 = Some [0x0628, 0x0631]"
    by code_simp
  from same_letters_pass_threshold [OF h1 h2 h3 h4] h1 h2 h3 h4
  show ?thesis by blast
qed

section \<open>The full-session comparator and the report\<close>

text \<open>
  Claim C2. For the transcript \<open>"ab"\<close> against the reference \<open>"ac"\<close> the comparator's
  \<open>incorrect\<close> event carries the similarity 0, because it scores the two words with the
  greedy whole-word count \<open>calculateTextSimilarity\<close>; the character-set measure
  \<open>calculateSimilarity\<close> of the two words is the double of 1/3, which times 100 rounds
  to 33.
\<close>

theorem comparator_similarity_is_zero:
  "map ed_similarity (differences (compareTexts [0x0061, 0x0062] [0x0061, 0x0063])) = [Some 0]
   \<and> round_half_up (js_mul (calculateSimilarity [0x0061, 0x0062] [0x0061, 0x0063]) 100) = 33"
  by code_simp

text \<open>
  Claim C3. For the transcript \<open>"a"\<close> and the reference text \<open>"1"\<close>, which normalizes to no
  word, the report has \<open>total_words = 0\<close> and a completion percentage of 100: the quotient
  \<open>spokenWords / totalWords\<close> is taken with a zero divisor. For the transcript \<open>" "\<close> the
  completion percentage is \<open>NaN\<close>.
\<close>

theorem completion_divides_by_zero:
  "map_sum id (\<lambda>a. (total_words a, completion_percentage a)) (POST [0x0061] [0x0031] () [])
     = Inr (0, Num 100)
   \<and> map_sum id (\<lambda>a. (total_words a, completion_percentage a)) (POST [0x0020] [0x0031] () [])
     = Inr (0, NaN)"
  by code_simp

lemma partition_by_type:
  "filter_mset (\<lambda>d. ed_type d = Incorrect) M + filter_mset (\<lambda>d. ed_type d = Missing) M
     + filter_mset (\<lambda>d. ed_type d = Extra) M = M"
proof (rule multiset_eqI)
  fix x
  show "count (filter_mset (\<lambda>d. ed_type d = Incorrect) M
          + filter_mset (\<lambda>d. ed_type d = Missing) M
          + filter_mset (\<lambda>d. ed_type d = Extra) M) x = count M x"
    by (cases "ed_type x") simp_all
qed

text \<open>
  Claim C4, as the code has it. The report does not depend on the realtime error
  collection sent with the request. For a request that is not refused, the three lists of
  the report's categorized list are the differences found by \<open>compareTexts\<close> on the whole
  transcript that have the type \<open>incorrect\<close>, \<open>missing\<close> and \<open>extra\<close>, in the order found;
  together they hold each difference exactly once.
\<close>

theorem report_lists_comparator_differences:
  "POST transcript fullText surahData realtimeErrors = POST transcript fullText surahData []
   \<and> (case POST transcript fullText surahData realtimeErrors of
        Inl e \<Rightarrow> transcript = [] \<or> fullText = []
      | Inr a \<Rightarrow>
          incorrect (by_type a)
            = filter (\<lambda>d. ed_type d = Incorrect) (differences (compareTexts transcript fullText))
          \<and> missing (by_type a)
            = filter (\<lambda>d. ed_type d = Missing) (differences (compareTexts transcript fullText))
          \<and> extra (by_type a)
            = filter (\<lambda>d. ed_type d = Extra) (differences (compareTexts transcript fullText))
          \<and> mset (incorrect (by_type a)) + mset (missing (by_type a)) + mset (extra (by_type a))
            = mset (differences (compareTexts transcript fullText)))"
  by (simp add: POST_def Let_def partition_by_type)

text \<open>The transcript \<open>"ab"\<close> recited against the reference \<open>"ab"\<close>, with one realtime
  error collected during the session: the categorized list of the report is empty.\<close>

theorem realtime_errors_dropped_counterexample:
  "map_sum id by_type
     (POST [0x0061, 0x0062] [0x0061, 0x0062] ()
        [\<lparr>rt_position = 0, rt_spoken = [0x0078], rt_expected = Some [0x0061, 0x0062],
          rt_type = Incorrect, rt_similarity = 0\<rparr>])
   = Inr \<lparr>incorrect = [], missing = [], extra = []\<rparr>"
  by code_simp

end
